theory Spec2Isabelle
  imports
    Main
    "HOL-Library.AList"
    "HOL-Library.Sublist"
    "HOL-Library.Multiset"
    "HOL-Library.Char_ord"
    "HOL-Library.List_Lexorder"
begin

section \<open>robotally: review votes and emoji reactions of a GitHub thread\<close>

text \<open>
  The development embeds \<^verbatim>\<open>robotally.go\<close>, \<^verbatim>\<open>auth.go\<close> and the event types of the
  package. Strings are byte lists, as Go strings are; \<^verbatim>\<open>sort.Strings\<close> orders them
  bytewise, which is the lexicographic order on \<^typ>\<open>char list\<close>.

  A Go map is an association list with distinct keys. The order of its entries is the order in
  which \<^verbatim>\<open>range\<close> visits them in the run at hand. Go leaves that order unspecified, so a
  property of a function that ranges over a map is stated for every order of its entries. The
  order in which a map that a function builds itself is visited is a parameter of the function.
  A store \<^verbatim>\<open>m[k] = v\<close> is \<^const>\<open>AList.update\<close>, a read \<^verbatim>\<open>m[k]\<close> is
  \<^const>\<open>map_of\<close> with the zero value of the element type for a missing key.
\<close>

subsection \<open>Configuration (auth.go, robotally.go line 21)\<close>

type_synonym ('k, 'v) gomap = "('k \<times> 'v) list"

definition githubUser :: string where
  "githubUser = ''robotally''"

definition disabled_map :: "(string, bool) gomap" where
  "disabled_map = [('':+1'', True), ('':-1'', True)]"

definition disabled :: "string \<Rightarrow> bool" where
  \<comment> \<open>\<^verbatim>\<open>disabled[emoji]\<close>: a missing key reads as false\<close>
  "disabled emoji = (case map_of disabled_map emoji of None \<Rightarrow> False | Some b \<Rightarrow> b)"

subsection \<open>Library functions the package calls\<close>

fun Contains :: "string \<Rightarrow> string \<Rightarrow> bool" where
  \<comment> \<open>\<^verbatim>\<open>strings.Contains(s, substr)\<close>\<close>
  "Contains [] substr = (substr = [])"
| "Contains (c # s) substr = (prefix substr (c # s) \<or> Contains s substr)"

fun Join :: "string list \<Rightarrow> string \<Rightarrow> string" where
  \<comment> \<open>\<^verbatim>\<open>strings.Join(a, sep)\<close>\<close>
  "Join [] sep = []"
| "Join [a] sep = a"
| "Join (a # b # r) sep = a @ sep @ Join (b # r) sep"

definition digit :: "nat \<Rightarrow> char" where
  "digit d = char_of (48 + d)"

function itoa :: "nat \<Rightarrow> string" where
  \<comment> \<open>the verb \<^verbatim>\<open>%d\<close> of \<^verbatim>\<open>fmt.Sprintf\<close> on a length\<close>
  "itoa n = (if n < 10 then [digit n] else itoa (n div 10) @ [digit (n mod 10)])"
  by pat_completeness auto
termination
  by (relation "measure id") auto

declare itoa.simps [simp del]

definition emoji_char :: "char \<Rightarrow> bool" where
  \<comment> \<open>the class \<^verbatim>\<open>[a-z0-9_]\<close>\<close>
  "emoji_char c =
     ((CHR ''a'' \<le> c \<and> c \<le> CHR ''z'') \<or> (CHR ''0'' \<le> c \<and> c \<le> CHR ''9'') \<or> c = CHR ''_'')"

function emojis_FindAllString :: "string \<Rightarrow> string list" where
  \<comment> \<open>\<^verbatim>\<open>regexp.MustCompile(":[a-z0-9_]+:").FindAllString(s, -1)\<close>: the leftmost match, then
      the search goes on behind it. The class excludes the colon, so a match that starts at a
      colon is that colon, the longest run of class bytes, and a colon right after the run.\<close>
  "emojis_FindAllString [] = []"
| "emojis_FindAllString (c # s) =
     (if c = CHR '':'' \<and> takeWhile emoji_char s \<noteq> []
         \<and> (case dropWhile emoji_char s of [] \<Rightarrow> False | d # _ \<Rightarrow> d = CHR '':'')
      then (c # takeWhile emoji_char s @ '':'') # emojis_FindAllString (tl (dropWhile emoji_char s))
      else emojis_FindAllString s)"
  by pat_completeness auto
termination
proof (relation "measure length")
  show "wf (measure length)" by simp
next
  fix c :: char and s :: string
  have "length (tl (dropWhile emoji_char s)) \<le> length (dropWhile emoji_char s)" by simp
  also have "\<dots> \<le> length s" by (rule length_dropWhile_le)
  finally show "(tl (dropWhile emoji_char s), c # s) \<in> measure length" by simp
next
  fix c :: char and s :: string
  show "(s, c # s) \<in> measure length" by simp
qed

declare emojis_FindAllString.simps [simp del]

subsection \<open>The report: \<^verbatim>\<open>status\<close> (robotally.go lines 147 to 201)\<close>

definition mention :: "string \<Rightarrow> string" where
  \<comment> \<open>\<^verbatim>\<open>"@"+user\<close>\<close>
  "mention user = CHR ''@'' # user"

definition collect_votes :: "(string, bool) gomap \<Rightarrow> string list \<times> string list" where
  \<comment> \<open>lines 155 to 162: the loop over \<^verbatim>\<open>votes\<close> that fills \<^verbatim>\<open>up\<close> and \<^verbatim>\<open>down\<close>\<close>
  "collect_votes votes =
     fold (\<lambda>(user, yes) (up, down).
             if yes then (up @ [mention user], down) else (up, down @ [mention user]))
          votes ([], [])"

definition up_list :: "(string, bool) gomap \<Rightarrow> string list" where
  \<comment> \<open>\<^verbatim>\<open>up\<close> after \<^verbatim>\<open>sort.Strings(up)\<close>, line 164\<close>
  "up_list votes = sort (fst (collect_votes votes))"

definition down_list :: "(string, bool) gomap \<Rightarrow> string list" where
  \<comment> \<open>\<^verbatim>\<open>down\<close> after \<^verbatim>\<open>sort.Strings(down)\<close>, line 165\<close>
  "down_list votes = sort (snd (collect_votes votes))"

definition slice_of :: "(string, string list) gomap \<Rightarrow> string \<Rightarrow> string list" where
  \<comment> \<open>\<^verbatim>\<open>reactions[emoji]\<close>: a missing key reads as the nil slice\<close>
  "slice_of reactions emoji = (case map_of reactions emoji of None \<Rightarrow> [] | Some l \<Rightarrow> l)"

definition gather_users ::
  "string \<Rightarrow> (string, unit) gomap \<Rightarrow> (string, string list) gomap \<Rightarrow> (string, string list) gomap"
where
  \<comment> \<open>lines 175 to 178: the mentions of one code are appended, then sorted in place;
      \<^verbatim>\<open>sort.Strings\<close> of a missing entry stores nothing\<close>
  "gather_users emoji users reactions =
     (let appended =
            fold (\<lambda>(user, _) r. AList.update emoji (slice_of r emoji @ [mention user]) r)
                 users reactions
      in case map_of appended emoji of
           None \<Rightarrow> appended
         | Some l \<Rightarrow> AList.update emoji (sort l) appended)"

definition gather :: "(string, (string, unit) gomap) gomap \<Rightarrow> (string, string list) gomap" where
  \<comment> \<open>lines 173 to 179: the map \<^verbatim>\<open>reactions\<close>\<close>
  "gather emojis = fold (\<lambda>(emoji, users) r. gather_users emoji users r) emojis []"

definition compare_swap ::
  "(string, string list) gomap \<Rightarrow> nat \<Rightarrow> nat \<Rightarrow> string \<times> string list \<Rightarrow> string \<times> string list"
where
  \<comment> \<open>lines 186 to 191, one round of the inner loop: \<^verbatim>\<open>second\<close> is element \<^verbatim>\<open>j\<close> of
      \<^verbatim>\<open>emojis[i+1:]\<close>, the swap is between the indices \<^verbatim>\<open>i\<close> and \<^verbatim>\<open>j\<close> of
      \<^verbatim>\<open>emojis\<close>\<close>
  "compare_swap reactions i j st =
     (case st of (first, emojis) \<Rightarrow>
        let second = emojis ! (i + 1 + j)
        in if length (slice_of reactions first) < length (slice_of reactions second)
           then (second, emojis[i := emojis ! j, j := emojis ! i])
           else (first, emojis))"

definition order_pass :: "(string, string list) gomap \<Rightarrow> string list \<Rightarrow> string list" where
  \<comment> \<open>lines 185 to 192: both \<^verbatim>\<open>range\<close> loops fix their bounds at entry and read each
      element when its round starts\<close>
  "order_pass reactions emojis =
     fold (\<lambda>i es. snd (fold (compare_swap reactions i) [0 ..< length es - (i + 1)] (es ! i, es)))
          [0 ..< length emojis] emojis"

definition reaction_order :: "string list \<Rightarrow> (string, string list) gomap \<Rightarrow> string list" where
  \<comment> \<open>lines 181 to 192: the slice \<^verbatim>\<open>emojis\<close> after the ordering loops. Before them it
      holds the keys of \<^verbatim>\<open>reactions\<close> in the order in which the loop of line 182 visits
      that map: the list \<open>visit\<close>\<close>
  "reaction_order visit reactions = order_pass reactions visit"

definition reaction_row :: "(string, string list) gomap \<Rightarrow> string \<Rightarrow> string" where
  \<comment> \<open>line 196\<close>
  "reaction_row reactions emoji =
     ''| '' @ emoji @ '' | '' @ Join (slice_of reactions emoji) '' '' @ '' |'' @ [CHR 0x0A]"

definition vote_table :: "(string, bool) gomap \<Rightarrow> string" where
  \<comment> \<open>lines 167 and 168\<close>
  "vote_table votes =
     ''| Vote | Count | Reviewers |'' @ [CHR 0x0A] @ ''| :---: | :---: | :---: |'' @ [CHR 0x0A]
     @ ''| :+1: | '' @ itoa (length (up_list votes)) @ '' | '' @ Join (up_list votes) '' ''
     @ '' |'' @ [CHR 0x0A]
     @ ''| :-1: | '' @ itoa (length (down_list votes)) @ '' | '' @ Join (down_list votes) '' ''
     @ '' |''"

definition reaction_table ::
  "string list \<Rightarrow> (string, (string, unit) gomap) gomap \<Rightarrow> string"
where
  \<comment> \<open>lines 171 to 198\<close>
  "reaction_table visit emojis =
     (if length emojis > 0
      then [CHR 0x0A, CHR 0x0A] @ ''| Reaction | Users |'' @ [CHR 0x0A] @ ''| :---: | :---: |''
           @ [CHR 0x0A]
           @ concat (map (reaction_row (gather emojis)) (reaction_order visit (gather emojis)))
      else [])"

definition status ::
  "string \<Rightarrow> string list \<Rightarrow> string \<Rightarrow> (string, bool) gomap
    \<Rightarrow> (string, (string, unit) gomap) gomap \<Rightarrow> string"
where
  \<comment> \<open>The first two arguments are what a run has besides the parameters of the source: the
      text of \<^verbatim>\<open>time.Now().UTC().Format(...)\<close> at the call, and the order in which the
      loop of line 182 visits the map \<^verbatim>\<open>reactions\<close>, which is built inside the function.\<close>
  "status now visit warning votes emojis =
     (if length warning > 0
      then '':exclamation: '' @ warning @ '' :exclamation:'' @ [CHR 0x0A, CHR 0x0A] else [])
     @ vote_table votes
     @ reaction_table visit emojis
     @ [CHR 0x0A, CHR 0x0A] @ ''_Updated: '' @ now @ ''_''"

subsection \<open>Comments of the GitHub API and their aggregation (robotally.go lines 114 to 143)\<close>

text \<open>
  The fields of \<^verbatim>\<open>github.IssueComment\<close> are pointers, and the package dereferences them
  without a test: a nil pointer is \<^const>\<open>None\<close> here, and the dereference of one is a panic,
  the result \<^const>\<open>None\<close> of the function that performs it.

  The text the package scans is \<^verbatim>\<open>comment.String()\<close>, the rendering of the whole comment
  by the client library, not the body alone. The rendering is the parameter \<open>str\<close> of every
  function that scans.
\<close>

record github_User =
  github_Login :: "string option"

record IssueComment =
  ID :: "int option"
  Body :: "string option"
  User :: "github_User option"

definition comment_login :: "IssueComment \<Rightarrow> string option" where
  \<comment> \<open>\<^verbatim>\<open>*comment.User.Login\<close>\<close>
  "comment_login comment = (case User comment of None \<Rightarrow> None | Some u \<Rightarrow> github_Login u)"

definition users_of :: "(string, (string, unit) gomap) gomap \<Rightarrow> string \<Rightarrow> (string, unit) gomap" where
  "users_of reactions emoji = (case map_of reactions emoji of None \<Rightarrow> [] | Some users \<Rightarrow> users)"

definition react ::
  "string \<Rightarrow> string \<Rightarrow> (string, (string, unit) gomap) gomap \<Rightarrow> (string, (string, unit) gomap) gomap"
where
  \<comment> \<open>lines 133 to 139, one round of the loop over the matches\<close>
  "react login emoji reactions =
     (if \<not> disabled emoji
      then let valid = (case map_of reactions emoji of
                          None \<Rightarrow> AList.update emoji [] reactions
                        | Some _ \<Rightarrow> reactions)
           in AList.update emoji (AList.update login () (users_of valid emoji)) valid
      else reactions)"

definition aggregate_comment ::
  "(IssueComment \<Rightarrow> string) \<Rightarrow> IssueComment
    \<Rightarrow> (string, bool) gomap \<times> (string, (string, unit) gomap) gomap
    \<Rightarrow> ((string, bool) gomap \<times> (string, (string, unit) gomap) gomap) option"
where
  \<comment> \<open>lines 120 to 140, one round of the loop over the comments\<close>
  "aggregate_comment str comment acc =
     (case acc of (votes, reactions) \<Rightarrow>
        (case comment_login comment of
           None \<Rightarrow> None
         | Some login \<Rightarrow>
             if login = githubUser then Some (votes, reactions)
             else Some
               (if Contains (str comment) '':+1:'' then AList.update login True votes
                else if Contains (str comment) '':-1:'' then AList.update login False votes
                else votes,
                fold (react login) (emojis_FindAllString (str comment)) reactions)))"

fun aggregate_loop ::
  "(IssueComment \<Rightarrow> string) \<Rightarrow> IssueComment list
    \<Rightarrow> (string, bool) gomap \<times> (string, (string, unit) gomap) gomap
    \<Rightarrow> ((string, bool) gomap \<times> (string, (string, unit) gomap) gomap) option"
where
  "aggregate_loop str [] acc = Some acc"
| "aggregate_loop str (comment # comments) acc =
     (case aggregate_comment str comment acc of
        None \<Rightarrow> None
      | Some acc' \<Rightarrow> aggregate_loop str comments acc')"

definition aggregate ::
  "(IssueComment \<Rightarrow> string) \<Rightarrow> IssueComment list
    \<Rightarrow> ((string, bool) gomap \<times> (string, (string, unit) gomap) gomap) option"
where
  "aggregate str comments = aggregate_loop str comments ([], [])"

subsection \<open>Webhook events and the handler (robotally.go lines 29 to 110)\<close>

record User =
  Login :: string

record Endpoint =
  Branch :: string

record Issue =
  Number :: int

record PullRequest =
  PR_Number :: int
  Base :: "Endpoint option"

record Repository =
  Name :: string
  Owner :: "User option"

record Event =
  Action :: string
  Issue :: "Issue option"
  PullRequest :: "PullRequest option"
  Repository :: "Repository option"
  Sender :: "User option"

text \<open>
  What the handler reads of a request is the outcome of \<^verbatim>\<open>ioutil.ReadAll\<close> and
  \<^verbatim>\<open>json.Unmarshal\<close>: a body that cannot be read, one that is no event, or an event.
\<close>

datatype request = Unreadable | Undecodable | Decoded Event

text \<open>
  The comment store is the GitHub API. The handler's effects are the calls it makes, in order;
  the answers of the store are a parameter: for a listing an error text or the comments, for a
  create or an edit an error text or none.
\<close>

datatype api_call =
    CreateComment_call string string int string
  | ListComments_call string string int
  | EditComment_call string string int string

record client =
  ListComments :: "string \<Rightarrow> string \<Rightarrow> int \<Rightarrow> string + IssueComment list"
  CreateComment :: "string \<Rightarrow> string \<Rightarrow> int \<Rightarrow> string \<Rightarrow> string option"
  EditComment :: "string \<Rightarrow> string \<Rightarrow> int \<Rightarrow> string \<Rightarrow> string option"

text \<open>
  The handler answers with \<^verbatim>\<open>http.Error(w, message, code)\<close>, or returns with nothing
  written, which the server sends as 200 with an empty body, or panics.
\<close>

datatype outcome = Panic | Reply nat string

definition StatusOK :: nat where "StatusOK = 200"
definition StatusBadRequest :: nat where "StatusBadRequest = 400"
definition StatusMethodNotAllowed :: nat where "StatusMethodNotAllowed = 405"
definition StatusInternalServerError :: nat where "StatusInternalServerError = 500"

definition client_error :: "outcome \<Rightarrow> bool" where
  \<comment> \<open>a response of the class 4xx\<close>
  "client_error out = (case out of Panic \<Rightarrow> False | Reply code _ \<Rightarrow> 400 \<le> code \<and> code < 500)"

definition owner_login :: "Event \<Rightarrow> string option" where
  \<comment> \<open>\<^verbatim>\<open>e.Repository.Owner.Login\<close>\<close>
  "owner_login e =
     (case Repository e of
        None \<Rightarrow> None
      | Some r \<Rightarrow> (case Owner r of None \<Rightarrow> None | Some u \<Rightarrow> Some (Login u)))"

definition warning_group :: "string \<Rightarrow> string option" where
  \<comment> \<open>the group \<^verbatim>\<open>(.*)\<close> and the closing \<^verbatim>\<open>" :exclamation:"\<close> on the text behind an opening
      \<^verbatim>\<open>":exclamation: "\<close>: the dot stops at a newline, the star is greedy\<close>
  "warning_group rest =
     (let line = takeWhile (\<lambda>c. c \<noteq> CHR 0x0A) rest;
          ends = filter (\<lambda>q. prefix '' :exclamation:'' (drop q line)) [0 ..< Suc (length line)]
      in if ends = [] then None else Some (take (last ends) line))"

fun warning_FindSubmatch :: "string \<Rightarrow> string option" where
  \<comment> \<open>\<^verbatim>\<open>matches[0][1]\<close> of
      \<^verbatim>\<open>regexp.MustCompile(":exclamation: (.*) :exclamation:").FindAllStringSubmatch(s, -1)\<close>,
      \<^const>\<open>None\<close> when there is no match\<close>
  "warning_FindSubmatch [] = None"
| "warning_FindSubmatch (c # s) =
     (if prefix '':exclamation: '' (c # s)
      then (case warning_group (drop (length '':exclamation: '') (c # s)) of
              Some w \<Rightarrow> Some w
            | None \<Rightarrow> warning_FindSubmatch s)
      else warning_FindSubmatch s)"

fun carried_warning :: "(IssueComment \<Rightarrow> string) \<Rightarrow> IssueComment list \<Rightarrow> string \<Rightarrow> string option" where
  \<comment> \<open>lines 91 to 97, from the value of \<^verbatim>\<open>warning\<close> so far\<close>
  "carried_warning str [] warning = Some warning"
| "carried_warning str (comment # comments) warning =
     (case comment_login comment of
        None \<Rightarrow> None
      | Some login \<Rightarrow>
          if login = githubUser
          then (case warning_FindSubmatch (str comment) of
                  Some w \<Rightarrow> carried_warning str comments w
                | None \<Rightarrow> carried_warning str comments warning)
          else carried_warning str comments warning)"

fun edit_first ::
  "client \<Rightarrow> string \<Rightarrow> string \<Rightarrow> string \<Rightarrow> IssueComment list \<Rightarrow> outcome \<times> api_call list"
where
  \<comment> \<open>lines 100 to 108, and the end of the handler behind the loop\<close>
  "edit_first cl owner name report [] = (Reply StatusOK [], [])"
| "edit_first cl owner name report (comment # comments) =
     (case comment_login comment of
        None \<Rightarrow> (Panic, [])
      | Some login \<Rightarrow>
          if login = githubUser
          then (case ID comment of
                  None \<Rightarrow> (Panic, [])
                | Some cid \<Rightarrow>
                    (case EditComment cl owner name cid report of
                       Some err \<Rightarrow>
                         (Reply StatusInternalServerError (''Failed to update issue report: '' @ err),
                          [EditComment_call owner name cid report])
                     | None \<Rightarrow> (Reply StatusOK [], [EditComment_call owner name cid report])))
          else edit_first cl owner name report comments)"

definition thread_number :: "Event \<Rightarrow> int" where
  \<comment> \<open>lines 63 to 68\<close>
  "thread_number e =
     (case Issue e of
        Some i \<Rightarrow> Number i
      | None \<Rightarrow> (case PullRequest e of Some pr \<Rightarrow> PR_Number pr | None \<Rightarrow> 0))"

definition branch_warning :: "Event \<Rightarrow> string option" where
  \<comment> \<open>lines 70 to 73; \<^const>\<open>None\<close> is the panic of \<^verbatim>\<open>e.PullRequest.Base.Branch\<close> on a nil
      \<^verbatim>\<open>Base\<close>\<close>
  "branch_warning e =
     (case PullRequest e of
        None \<Rightarrow> Some []
      | Some pr \<Rightarrow>
          (case Base pr of
             None \<Rightarrow> None
           | Some b \<Rightarrow>
               Some (if Branch b = ''master''
                     then ''Pull request against '' @ [CHR 0x60] @ ''master'' @ [CHR 0x60]
                     else [])))"

definition opened :: "string \<Rightarrow> client \<Rightarrow> Event \<Rightarrow> outcome \<times> api_call list" where
  \<comment> \<open>lines 61 to 78; \<^verbatim>\<open>status\<close> is called with nil maps, so no map is visited\<close>
  "opened now cl e =
     (case branch_warning e of
        None \<Rightarrow> (Panic, [])
      | Some warning \<Rightarrow>
          (case Repository e of
             None \<Rightarrow> (Panic, [])
           | Some r \<Rightarrow>
               (case Owner r of
                  None \<Rightarrow> (Panic, [])
                | Some u \<Rightarrow>
                    (case CreateComment cl (Login u) (Name r) (thread_number e)
                            (status now [] warning [] []) of
                       Some err \<Rightarrow>
                         (Reply StatusInternalServerError (''Failed to comment on issue: '' @ err),
                          [CreateComment_call (Login u) (Name r) (thread_number e)
                             (status now [] warning [] [])])
                     | None \<Rightarrow>
                         (Reply StatusOK [],
                          [CreateComment_call (Login u) (Name r) (thread_number e)
                             (status now [] warning [] [])])))))"

definition created ::
  "(IssueComment \<Rightarrow> string) \<Rightarrow> string \<Rightarrow> string list \<Rightarrow> client \<Rightarrow> Event
    \<Rightarrow> outcome \<times> api_call list"
where
  \<comment> \<open>lines 80 to 108\<close>
  "created str now visit cl e =
     (case Repository e of
        None \<Rightarrow> (Panic, [])
      | Some r \<Rightarrow>
          (case Owner r of
             None \<Rightarrow> (Panic, [])
           | Some u \<Rightarrow>
               (case Issue e of
                  None \<Rightarrow> (Panic, [])
                | Some i \<Rightarrow>
                    (case ListComments cl (Login u) (Name r) (Number i) of
                       Inl err \<Rightarrow>
                         (Reply StatusInternalServerError (''Failed to list comments: '' @ err),
                          [ListComments_call (Login u) (Name r) (Number i)])
                     | Inr comments \<Rightarrow>
                         (case aggregate str comments of
                            None \<Rightarrow> (Panic, [ListComments_call (Login u) (Name r) (Number i)])
                          | Some (votes, reactions) \<Rightarrow>
                              (case carried_warning str comments [] of
                                 None \<Rightarrow> (Panic, [ListComments_call (Login u) (Name r) (Number i)])
                               | Some warning \<Rightarrow>
                                   (case edit_first cl (Login u) (Name r)
                                           (status now visit warning votes reactions) comments of
                                      (out, calls) \<Rightarrow>
                                        (out, ListComments_call (Login u) (Name r) (Number i) # calls))))))))"

definition handler ::
  "(IssueComment \<Rightarrow> string) \<Rightarrow> string \<Rightarrow> string list \<Rightarrow> client \<Rightarrow> request
    \<Rightarrow> outcome \<times> api_call list"
where
  \<comment> \<open>lines 29 to 110; \<open>now\<close> and \<open>visit\<close> are the clock text and the order of the codes
      of the call of \<^const>\<open>status\<close>\<close>
  "handler str now visit cl req =
     (case req of
        Unreadable \<Rightarrow> (Reply StatusInternalServerError ''Failed to read request body'', [])
      | Undecodable \<Rightarrow> (Reply StatusBadRequest ''Invalid GitHub event'', [])
      | Decoded e \<Rightarrow>
          (case Sender e of
             None \<Rightarrow> (Panic, [])
           | Some sender \<Rightarrow>
               if Login sender = githubUser then (Reply StatusOK [], [])
               else if Action e \<noteq> ''opened'' \<and> Action e \<noteq> ''created''
               then (Reply StatusMethodNotAllowed ''Non-supported action'', [])
               else if Action e = ''opened'' then opened now cl e
               else created str now visit cl e))"

subsection \<open>Notions the properties are stated with\<close>

text \<open>
  The strings of the pattern \<^verbatim>\<open>:[a-z0-9_]+:\<close>: a colon, one or more bytes of the class, a
  colon.
\<close>

definition emoji_code :: "string \<Rightarrow> bool" where
  "emoji_code e =
     (case e of
        [] \<Rightarrow> False
      | c # r \<Rightarrow> c = CHR '':'' \<and> r \<noteq> [] \<and> last r = CHR '':'' \<and> butlast r \<noteq> []
                 \<and> list_all emoji_char (butlast r))"

text \<open>
  Two association lists are the same Go map when they have the same entries; they may differ
  in the order in which \<^verbatim>\<open>range\<close> visits them. Two reaction mappings are the same when
  they have the same codes, and the user set of each code is the same map. A list of keys is
  an order in which \<^verbatim>\<open>range\<close> can visit a map when it holds every key of the map once.
\<close>

definition same_map :: "('k \<times> 'v) list \<Rightarrow> ('k \<times> 'v) list \<Rightarrow> bool" where
  "same_map m m' = (distinct (map fst m) \<and> distinct (map fst m') \<and> set m = set m')"

definition same_reactions ::
  "(string, (string, unit) gomap) gomap \<Rightarrow> (string, (string, unit) gomap) gomap \<Rightarrow> bool"
where
  "same_reactions e e' =
     (distinct (map fst e) \<and> distinct (map fst e') \<and> set (map fst e) = set (map fst e')
      \<and> (\<forall>k \<in> set (map fst e). same_map (users_of e k) (users_of e' k)))"

definition visits :: "'k list \<Rightarrow> ('k \<times> 'v) list \<Rightarrow> bool" where
  "visits ks m = (distinct ks \<and> set ks = set (map fst m))"

definition is_edit :: "api_call \<Rightarrow> bool" where
  "is_edit call = (case call of EditComment_call _ _ _ _ \<Rightarrow> True | _ \<Rightarrow> False)"

definition is_create :: "api_call \<Rightarrow> bool" where
  "is_create call = (case call of CreateComment_call _ _ _ _ \<Rightarrow> True | _ \<Rightarrow> False)"

text \<open>
  Sample data, on which the definitions are evaluated: a rendering that is the body of the
  comment, a comment with all its fields, a store that answers every listing with the same
  comments and fails no call, and an event of the repository \<^verbatim>\<open>owner/repo\<close> with no pull
  request.
\<close>

definition plain_text :: "IssueComment \<Rightarrow> string" where
  "plain_text comment = (case Body comment of None \<Rightarrow> [] | Some b \<Rightarrow> b)"

definition comment_by :: "int \<Rightarrow> string \<Rightarrow> string \<Rightarrow> IssueComment" where
  "comment_by cid login body =
     \<lparr>ID = Some cid, Body = Some body, User = Some \<lparr>github_Login = Some login\<rparr>\<rparr>"

definition store_with :: "IssueComment list \<Rightarrow> client" where
  "store_with comments =
     \<lparr>ListComments = (\<lambda>_ _ _. Inr comments),
      CreateComment = (\<lambda>_ _ _ _. None),
      EditComment = (\<lambda>_ _ _ _. None)\<rparr>"

definition notification :: "string \<Rightarrow> string \<Rightarrow> Issue option \<Rightarrow> Event" where
  "notification action sender issue =
     \<lparr>Action = action, Issue = issue, PullRequest = None,
      Repository = Some \<lparr>Name = ''repo'', Owner = Some \<lparr>Login = ''owner''\<rparr>\<rparr>,
      Sender = Some \<lparr>Login = sender\<rparr>\<rparr>"

section \<open>Properties\<close>

subsection \<open>The order of the reaction rows\<close>

text \<open>
  C1. The claim: whenever the reaction mapping is non-empty, the reaction rows of the report
  stand in descending order of the number of users of their code. The ordering loops of
  \<^verbatim>\<open>status\<close> swap the indices \<^verbatim>\<open>i\<close> and \<^verbatim>\<open>j\<close>, where \<^verbatim>\<open>j\<close> counts from the start of
  \<^verbatim>\<open>emojis[i+1:]\<close> and not of \<^verbatim>\<open>emojis\<close>. On the mapping with one user of \<^verbatim>\<open>:tada:\<close> and
  two users of \<^verbatim>\<open>:rocket:\<close>, in a run that visits \<^verbatim>\<open>:tada:\<close> first, the only swap is of
  index 0 with itself: the row of \<^verbatim>\<open>:tada:\<close> with one user stays before the row of
  \<^verbatim>\<open>:rocket:\<close> with two.
\<close>

theorem C1_rows_not_descending:
  "visits ['':tada:'', '':rocket:'']
     (gather [('':rocket:'', [(''bob'', ()), (''alice'', ())]), ('':tada:'', [(''bob'', ())])])
   \<and> reaction_order ['':tada:'', '':rocket:'']
     (gather [('':rocket:'', [(''bob'', ()), (''alice'', ())]), ('':tada:'', [(''bob'', ())])])
     = ['':tada:'', '':rocket:'']
   \<and> reaction_table ['':tada:'', '':rocket:'']
     [('':rocket:'', [(''bob'', ()), (''alice'', ())]), ('':tada:'', [(''bob'', ())])]
     = [CHR 0x0A, CHR 0x0A] @ ''| Reaction | Users |'' @ [CHR 0x0A] @ ''| :---: | :---: |''
       @ [CHR 0x0A] @ ''| :tada: | @bob |'' @ [CHR 0x0A]
       @ ''| :rocket: | @alice @bob |'' @ [CHR 0x0A]"
  by code_simp







subsection \<open>The report and the order of the map entries\<close>

lemma same_map_mset: "same_map m m' \<Longrightarrow> mset m = mset m'"
  unfolding same_map_def by (metis distinct_map set_eq_iff_mset_eq_distinct)

lemma sort_cong_mset: "mset xs = mset ys \<Longrightarrow> sort xs = sort (ys :: string list)"
  by (rule properties_for_sort) simp_all

lemma collect_votes_fold:
  "fold (\<lambda>(user, yes) (up, down).
           if yes then (up @ [mention user], down) else (up, down @ [mention user])) votes (up, down)
   = (up @ map (mention \<circ> fst) (filter snd votes),
      down @ map (mention \<circ> fst) (filter (Not \<circ> snd) votes))"
  by (induction votes arbitrary: up down) auto

lemma collect_votes_eq:
  "collect_votes votes =
     (map (mention \<circ> fst) (filter snd votes), map (mention \<circ> fst) (filter (Not \<circ> snd) votes))"
  by (simp add: collect_votes_def collect_votes_fold)

lemma up_list_eq: "up_list votes = sort (map (mention \<circ> fst) (filter snd votes))"
  by (simp add: up_list_def collect_votes_eq)

lemma down_list_eq: "down_list votes = sort (map (mention \<circ> fst) (filter (Not \<circ> snd) votes))"
  by (simp add: down_list_def collect_votes_eq)

lemma up_list_cong: "mset v = mset v' \<Longrightarrow> up_list v = up_list v'"
  unfolding up_list_eq
  by (rule sort_cong_mset) (metis mset_filter mset_map)

lemma down_list_cong: "mset v = mset v' \<Longrightarrow> down_list v = down_list v'"
  unfolding down_list_eq
  by (rule sort_cong_mset) (metis mset_filter mset_map)

lemma slice_of_update: "slice_of (AList.update k l r) k = l"
  by (simp add: slice_of_def update_conv')

lemma append_mentions:
  "fold (\<lambda>(user, _) r. AList.update k (slice_of r k @ [mention user]) r) us r =
     (if us = [] then r else AList.update k (slice_of r k @ map (mention \<circ> fst) us) r)"
proof (induction us arbitrary: r)
  case Nil
  then show ?case by simp
next
  case (Cons a us)
  obtain u x where a: "a = (u, x)" by (cases a)
  show ?case by (simp add: a Cons.IH slice_of_update comp_def)
qed

lemma gather_users_eq:
  "gather_users k us r =
     (if us = [] then (case map_of r k of None \<Rightarrow> r | Some l \<Rightarrow> AList.update k (sort l) r)
      else AList.update k (sort (slice_of r k @ map (mention \<circ> fst) us)) r)"
  by (simp add: gather_users_def append_mentions update_conv')

lemma keys_gather_users: "fst ` set (gather_users k us r) \<subseteq> insert k (fst ` set r)"
  by (auto simp: gather_users_eq dom_update split: option.splits)



lemma map_of_gather_users:
  assumes "k \<notin> fst ` set r"
  shows "map_of (gather_users k us r) k' =
     (if k' = k \<and> us \<noteq> [] then Some (sort (map (mention \<circ> fst) us)) else map_of r k')"
proof -
  from assms have "map_of r k = None" by (simp add: map_of_eq_None_iff)
  then show ?thesis by (simp add: gather_users_eq slice_of_def update_conv')
qed

lemma map_of_gather_fold:
  "distinct (map fst e) \<Longrightarrow> fst ` set e \<inter> fst ` set r = {} \<Longrightarrow>
   map_of (fold (\<lambda>(emoji, users) r. gather_users emoji users r) e r) k =
     (case map_of e k of
        None \<Rightarrow> map_of r k
      | Some us \<Rightarrow> if us = [] then map_of r k else Some (sort (map (mention \<circ> fst) us)))"
proof (induction e arbitrary: r k)
  case Nil
  then show ?case by simp
next
  case (Cons a e)
  obtain k0 us0 where a: "a = (k0, us0)" by (cases a)
  from Cons.prems have fresh: "k0 \<notin> fst ` set r" and new: "k0 \<notin> fst ` set e"
    and d: "distinct (map fst e)" and apart: "fst ` set e \<inter> fst ` set r = {}"
    by (auto simp: a)
  from keys_gather_users [of k0 us0 r] new apart
  have "fst ` set e \<inter> fst ` set (gather_users k0 us0 r) = {}" by auto
  note step = Cons.IH [OF d this]
  show ?case
  proof (cases "k = k0")
    case True
    with new have "map_of e k = None" by (simp add: map_of_eq_None_iff)
    with True show ?thesis by (simp add: a step map_of_gather_users [OF fresh])
  next
    case False
    then show ?thesis
      by (simp add: a step map_of_gather_users [OF fresh] split: option.splits)
  qed
qed

lemma slice_of_gather:
  "distinct (map fst e) \<Longrightarrow>
   slice_of (gather e) k = sort (map (mention \<circ> fst) (users_of e k))"
  by (simp add: slice_of_def gather_def map_of_gather_fold users_of_def split: option.splits)

lemma same_reactions_slices:
  assumes "same_reactions e e'"
  shows "slice_of (gather e) = slice_of (gather e')"
proof
  fix k
  from assms have d: "distinct (map fst e)" "distinct (map fst e')"
    and keys: "fst ` set e = fst ` set e'"
    by (simp_all add: same_reactions_def)
  from assms have "\<forall>k \<in> set (map fst e). same_map (users_of e k) (users_of e' k)"
    unfolding same_reactions_def by (elim conjE)
  then have users: "same_map (users_of e k) (users_of e' k)" if "k \<in> fst ` set e" for k
    using that unfolding set_map by blast
  have "mset (users_of e k) = mset (users_of e' k)"
  proof (cases "k \<in> fst ` set e")
    case True
    then show ?thesis by (intro same_map_mset users)
  next
    case False
    with keys have "map_of e k = None" "map_of e' k = None"
      by (simp_all add: map_of_eq_None_iff)
    then show ?thesis by (simp add: users_of_def)
  qed
  then have "mset (map (mention \<circ> fst) (users_of e k)) = mset (map (mention \<circ> fst) (users_of e' k))"
    by (metis mset_map)
  then show "slice_of (gather e) k = slice_of (gather e') k"
    by (simp add: slice_of_gather d sort_cong_mset)
qed

lemma same_reactions_length:
  assumes "same_reactions e e'"
  shows "length e = length e'"
proof -
  from assms have "distinct (map fst e)" "distinct (map fst e')"
    and "set (map fst e) = set (map fst e')"
    by (simp_all add: same_reactions_def)
  then have "length (map fst e) = length (map fst e')"
    by (metis distinct_card)
  then show ?thesis by simp
qed

lemma reaction_rows_cong:
  assumes "slice_of r = slice_of r'"
  shows "reaction_order visit r = reaction_order visit r'"
    and "reaction_row r = reaction_row r'"
proof -
  from assms have "compare_swap r = compare_swap r'"
    by (intro ext) (simp add: compare_swap_def)
  then show "reaction_order visit r = reaction_order visit r'"
    by (simp add: reaction_order_def order_pass_def)
  from assms show "reaction_row r = reaction_row r'"
    by (intro ext) (simp add: reaction_row_def)
qed

text \<open>
  C2. The claim: two invocations of \<^verbatim>\<open>status\<close> with identical warning, vote mapping,
  reaction mapping and timestamp give the same text, byte for byte. What holds: the text is the
  same when the two runs visit the codes of the map \<^verbatim>\<open>reactions\<close> in the same order. The
  order in which the votes, the reaction mapping and the users of a code are visited does not
  show in the text: the lists of users are sorted, and the rows are laid out from the order
  of the codes of \<^verbatim>\<open>reactions\<close> alone.
\<close>

theorem C2_same_order_same_report:
  assumes "same_map votes votes'" and "same_reactions emojis emojis'"
  shows "status now visit warning votes emojis = status now visit warning votes' emojis'"
proof -
  from assms(1) have "mset votes = mset votes'" by (rule same_map_mset)
  then have "vote_table votes = vote_table votes'"
    by (simp add: vote_table_def up_list_cong [of votes votes'] down_list_cong [of votes votes'])
  moreover from assms(2) have "slice_of (gather emojis) = slice_of (gather emojis')"
    by (rule same_reactions_slices)
  then have "reaction_table visit emojis = reaction_table visit emojis'"
    by (simp add: reaction_table_def same_reactions_length [OF assms(2)]
          reaction_rows_cong [of "gather emojis" "gather emojis'"])
  ultimately show ?thesis by (simp add: status_def)
qed

text \<open>
  An instance: two reviewers and two codes, every map visited in both orders, the codes of
  \<^verbatim>\<open>reactions\<close> visited in the same order.
\<close>

theorem C2_same_order_same_report_witness:
  "same_map [(''alice'', True), (''bob'', False)] [(''bob'', False), (''alice'', True)]
   \<and> same_reactions
         [('':tada:'', [(''bob'', ()), (''alice'', ())]), ('':rocket:'', [(''bob'', ())])]
         [('':rocket:'', [(''bob'', ())]), ('':tada:'', [(''alice'', ()), (''bob'', ())])]
   \<and> status ''Sat Oct 31 12:00:00 UTC 2026'' ['':rocket:'', '':tada:''] ''late''
        [(''alice'', True), (''bob'', False)]
        [('':tada:'', [(''bob'', ()), (''alice'', ())]), ('':rocket:'', [(''bob'', ())])]
     = status ''Sat Oct 31 12:00:00 UTC 2026'' ['':rocket:'', '':tada:''] ''late''
        [(''bob'', False), (''alice'', True)]
        [('':rocket:'', [(''bob'', ())]), ('':tada:'', [(''alice'', ()), (''bob'', ())])]"
proof -
  have v: "same_map [(''alice'', True), (''bob'', False)] [(''bob'', False), (''alice'', True)]"
    by code_simp
  have e: "same_reactions
         [('':tada:'', [(''bob'', ()), (''alice'', ())]), ('':rocket:'', [(''bob'', ())])]
         [('':rocket:'', [(''bob'', ())]), ('':tada:'', [(''alice'', ()), (''bob'', ())])]"
    by code_simp
  note r = C2_same_order_same_report [OF v e, of "''Sat Oct 31 12:00:00 UTC 2026''"
      "['':rocket:'', '':tada:'']" "''late''"]
  from v e r show ?thesis by (intro conjI)
qed

text \<open>
  The same warning, votes, reaction mapping and timestamp, \<^verbatim>\<open>:tada:\<close> and \<^verbatim>\<open>:rocket:\<close>
  with the one user \<^verbatim>\<open>bob\<close> each: the run that visits \<^verbatim>\<open>:tada:\<close> first and the run that
  visits \<^verbatim>\<open>:rocket:\<close> first render different texts.
\<close>

theorem C2_counterexample:
  "visits ['':tada:'', '':rocket:'']
     (gather [('':tada:'', [(''bob'', ())]), ('':rocket:'', [(''bob'', ())])])
   \<and> visits ['':rocket:'', '':tada:'']
     (gather [('':tada:'', [(''bob'', ())]), ('':rocket:'', [(''bob'', ())])])
   \<and> status ''Sat Oct 31 12:00:00 UTC 2026'' ['':tada:'', '':rocket:''] [] []
        [('':tada:'', [(''bob'', ())]), ('':rocket:'', [(''bob'', ())])]
     \<noteq> status ''Sat Oct 31 12:00:00 UTC 2026'' ['':rocket:'', '':tada:''] [] []
        [('':tada:'', [(''bob'', ())]), ('':rocket:'', [(''bob'', ())])]"
  by code_simp

subsection \<open>The vote lists of the report\<close>

lemma mention_inject: "mention u = mention u' \<longleftrightarrow> u = u'"
  by (simp add: mention_def)

lemma set_up_list: "set (up_list votes) = {mention u | u. (u, True) \<in> set votes}"
  by (force simp: up_list_eq)

lemma set_down_list: "set (down_list votes) = {mention u | u. (u, False) \<in> set votes}"
  by (force simp: down_list_eq)

lemma distinct_mentions:
  assumes "distinct (map fst votes)"
  shows "distinct (map (mention \<circ> fst) (filter P votes))"
proof -
  from assms have "distinct (map fst (filter P votes))" by (rule distinct_map_filter)
  then have "distinct (map mention (map fst (filter P votes)))"
    by (simp add: distinct_map inj_on_def mention_inject del: map_map)
  then show ?thesis by simp
qed

text \<open>
  C6. For every vote mapping, the list of the approving reviewers and the list of the
  rejecting reviewers of the report are sorted ascending and have no element in common, and
  the mention of every user of the mapping stands in exactly one of them, once: in the first
  when the vote is true, in the second when it is false; so the two lengths add up to the
  number of votes. The report holds the two lists in the rows \<^verbatim>\<open>:+1:\<close> and \<^verbatim>\<open>:-1:\<close> of its
  vote table, each joined by blanks behind its length; the table stands between the warning
  and the reaction table. A vote mapping is an association list with distinct keys.
\<close>

theorem C6_vote_lists:
  assumes "distinct (map fst votes)"
  shows "sorted (up_list votes) \<and> sorted (down_list votes)
     \<and> set (up_list votes) \<inter> set (down_list votes) = {}
     \<and> distinct (up_list votes) \<and> distinct (down_list votes)
     \<and> (\<forall>(user, yes) \<in> set votes.
           (mention user \<in> set (up_list votes)) = yes
         \<and> (mention user \<in> set (down_list votes)) = (\<not> yes))
     \<and> set (up_list votes) \<union> set (down_list votes) = mention ` fst ` set votes
     \<and> length (up_list votes) + length (down_list votes) = length votes
     \<and> status now visit warning votes emojis =
         (if length warning > 0
          then '':exclamation: '' @ warning @ '' :exclamation:'' @ [CHR 0x0A, CHR 0x0A] else [])
         @ ''| Vote | Count | Reviewers |'' @ [CHR 0x0A]
         @ ''| :---: | :---: | :---: |'' @ [CHR 0x0A]
         @ ''| :+1: | '' @ itoa (length (up_list votes)) @ '' | ''
         @ Join (up_list votes) '' '' @ '' |'' @ [CHR 0x0A]
         @ ''| :-1: | '' @ itoa (length (down_list votes)) @ '' | ''
         @ Join (down_list votes) '' '' @ '' |''
         @ reaction_table visit emojis
         @ [CHR 0x0A, CHR 0x0A] @ ''_Updated: '' @ now @ ''_''"
proof -
  have same: "\<And>u b b'. (u, b) \<in> set votes \<Longrightarrow> (u, b') \<in> set votes \<Longrightarrow> b = b'"
    by (rule eq_key_imp_eq_value [OF assms])
  then have uniq: "\<And>u. (u, True) \<in> set votes \<Longrightarrow> (u, False) \<in> set votes \<Longrightarrow> False"
    by blast
  have 1: "sorted (up_list votes)" "sorted (down_list votes)"
    by (simp_all add: up_list_eq down_list_eq)
  have 2: "set (up_list votes) \<inter> set (down_list votes) = {}"
    using uniq by (auto simp: set_up_list set_down_list mention_inject)
  have 3: "distinct (up_list votes)" "distinct (down_list votes)"
    using assms by (simp_all add: up_list_eq down_list_eq distinct_mentions)
  have 4: "\<forall>(user, yes) \<in> set votes.
           (mention user \<in> set (up_list votes)) = yes
         \<and> (mention user \<in> set (down_list votes)) = (\<not> yes)"
    using same by (fastforce simp: set_up_list set_down_list mention_inject)
  have 5: "set (up_list votes) \<union> set (down_list votes) = mention ` fst ` set votes"
  proof (intro set_eqI iffI)
    fix m assume "m \<in> set (up_list votes) \<union> set (down_list votes)"
    then show "m \<in> mention ` fst ` set votes"
      by (force simp: set_up_list set_down_list)
  next
    fix m assume "m \<in> mention ` fst ` set votes"
    then obtain u b where "(u, b) \<in> set votes" "m = mention u" by auto
    then show "m \<in> set (up_list votes) \<union> set (down_list votes)"
      by (cases b) (auto simp: set_up_list set_down_list)
  qed
  have 6: "length (up_list votes) + length (down_list votes) = length votes"
    by (simp add: up_list_eq down_list_eq comp_def sum_length_filter_compl)
  have 7: "status now visit warning votes emojis =
         (if length warning > 0
          then '':exclamation: '' @ warning @ '' :exclamation:'' @ [CHR 0x0A, CHR 0x0A] else [])
         @ ''| Vote | Count | Reviewers |'' @ [CHR 0x0A]
         @ ''| :---: | :---: | :---: |'' @ [CHR 0x0A]
         @ ''| :+1: | '' @ itoa (length (up_list votes)) @ '' | ''
         @ Join (up_list votes) '' '' @ '' |'' @ [CHR 0x0A]
         @ ''| :-1: | '' @ itoa (length (down_list votes)) @ '' | ''
         @ Join (down_list votes) '' '' @ '' |''
         @ reaction_table visit emojis
         @ [CHR 0x0A, CHR 0x0A] @ ''_Updated: '' @ now @ ''_''"
    by (simp add: status_def vote_table_def)
  from 1 2 3 4 5 6 7 show ?thesis by (intro conjI)
qed

text \<open>
  An instance: two approvals and one rejection, and the report of these votes with no warning
  and no reactions.
\<close>

theorem C6_vote_lists_witness:
  "distinct (map fst [(''carol'', True), (''bob'', False), (''alice'', True)])
   \<and> up_list [(''carol'', True), (''bob'', False), (''alice'', True)] = [''@alice'', ''@carol'']
   \<and> down_list [(''carol'', True), (''bob'', False), (''alice'', True)] = [''@bob'']
   \<and> sorted (up_list [(''carol'', True), (''bob'', False), (''alice'', True)])
   \<and> set (up_list [(''carol'', True), (''bob'', False), (''alice'', True)])
       \<inter> set (down_list [(''carol'', True), (''bob'', False), (''alice'', True)]) = {}
   \<and> length (up_list [(''carol'', True), (''bob'', False), (''alice'', True)])
       + length (down_list [(''carol'', True), (''bob'', False), (''alice'', True)])
       = length [(''carol'', True), (''bob'', False), (''alice'', True)]
   \<and> status ''Sat Oct 31 12:00:00 UTC 2026'' [] []
        [(''carol'', True), (''bob'', False), (''alice'', True)] []
       = ''| Vote | Count | Reviewers |'' @ [CHR 0x0A]
         @ ''| :---: | :---: | :---: |'' @ [CHR 0x0A]
         @ ''| :+1: | 2 | @alice @carol |'' @ [CHR 0x0A]
         @ ''| :-1: | 1 | @bob |''
         @ [CHR 0x0A, CHR 0x0A] @ ''_Updated: Sat Oct 31 12:00:00 UTC 2026_''"
proof -
  have d: "distinct (map fst [(''carol'', True), (''bob'', False), (''alice'', True)])" by simp
  have u: "up_list [(''carol'', True), (''bob'', False), (''alice'', True)] = [''@alice'', ''@carol'']"
    by code_simp
  have w: "down_list [(''carol'', True), (''bob'', False), (''alice'', True)] = [''@bob'']"
    by code_simp
  have t: "status ''Sat Oct 31 12:00:00 UTC 2026'' [] []
        [(''carol'', True), (''bob'', False), (''alice'', True)] []
       = ''| Vote | Count | Reviewers |'' @ [CHR 0x0A]
         @ ''| :---: | :---: | :---: |'' @ [CHR 0x0A]
         @ ''| :+1: | 2 | @alice @carol |'' @ [CHR 0x0A]
         @ ''| :-1: | 1 | @bob |''
         @ [CHR 0x0A, CHR 0x0A] @ ''_Updated: Sat Oct 31 12:00:00 UTC 2026_''"
    by code_simp
  note r = C6_vote_lists [OF d]
  note r1 = r [THEN conjunct1]
  note r3 = r [THEN conjunct2, THEN conjunct2, THEN conjunct1]
  note r8 = r [THEN conjunct2, THEN conjunct2, THEN conjunct2, THEN conjunct2, THEN conjunct2,
      THEN conjunct2, THEN conjunct2, THEN conjunct1]
  from d u w r1 r3 r8 t show ?thesis by (intro conjI)
qed

subsection \<open>Aggregation: own comments and votes\<close>

lemma Contains_sublist: "Contains s substr \<longleftrightarrow> sublist substr s"
  by (induction s) (simp_all add: sublist_Cons_right)

lemma Contains_trans: "Contains s b \<Longrightarrow> Contains b t \<Longrightarrow> Contains s t"
  unfolding Contains_sublist using sublist_order.order_trans by blast

lemma aggregate_comment_own:
  "comment_login c = Some githubUser \<Longrightarrow> aggregate_comment str c acc = Some acc"
  by (cases acc) (simp add: aggregate_comment_def)

lemma aggregate_loop_skip_own:
  "aggregate_loop str (filter (\<lambda>c. comment_login c \<noteq> Some githubUser) cs) acc
     = aggregate_loop str cs acc"
  by (induction cs arbitrary: acc) (simp_all add: aggregate_comment_own split: option.splits)

lemma aggregate_loop_append:
  "aggregate_loop str (xs @ ys) acc =
     (case aggregate_loop str xs acc of None \<Rightarrow> None | Some acc' \<Rightarrow> aggregate_loop str ys acc')"
  by (induction xs arbitrary: acc) (simp_all split: option.splits)

lemma aggregate_comment_None:
  "aggregate_comment str c acc = None \<longleftrightarrow> comment_login c = None"
  by (cases acc) (simp add: aggregate_comment_def split: option.splits)

lemma aggregate_loop_None:
  "aggregate_loop str cs acc = None \<longleftrightarrow> (\<exists>c \<in> set cs. comment_login c = None)"
proof (induction cs arbitrary: acc)
  case Nil
  then show ?case by simp
next
  case (Cons c cs)
  show ?case
  proof (cases "aggregate_comment str c acc")
    case None
    then show ?thesis using aggregate_comment_None [of str c acc] by simp
  next
    case (Some acc')
    then have "comment_login c \<noteq> None"
      using aggregate_comment_None [of str c acc] by simp
    with Some Cons.IH [of acc'] show ?thesis by auto
  qed
qed

text \<open>
  C5. For every comment history, the comments whose author is the engine's own identity
  contribute nothing to the aggregated votes and reactions: the aggregation of the history is
  that of the history without them, and the round of the loop on such a comment leaves both
  mappings as they are.
\<close>

theorem C5_own_comments_ignored:
  "aggregate str (filter (\<lambda>c. comment_login c \<noteq> Some githubUser) comments)
     = aggregate str comments
   \<and> (\<forall>comment acc. comment_login comment = Some githubUser
         \<longrightarrow> aggregate_comment str comment acc = Some acc)"
  by (simp add: aggregate_def aggregate_loop_skip_own aggregate_comment_own)

text \<open>
  An instance: a rejection by \<^verbatim>\<open>alice\<close>, then a comment of the engine that holds an approval
  and a reaction.
\<close>

theorem C5_own_comments_ignored_witness:
  "aggregate plain_text [comment_by 1 ''alice'' '':-1:'', comment_by 2 ''robotally'' '':+1: :tada:'']
     = aggregate plain_text [comment_by 1 ''alice'' '':-1:'']
   \<and> aggregate plain_text [comment_by 1 ''alice'' '':-1:''] = Some ([(''alice'', False)], [])
   \<and> aggregate_comment plain_text (comment_by 2 ''robotally'' '':+1: :tada:'')
        ([(''alice'', False)], []) = Some ([(''alice'', False)], [])"
proof -
  have own: "comment_login (comment_by 2 ''robotally'' '':+1: :tada:'') = Some githubUser"
    by (simp add: comment_login_def comment_by_def githubUser_def)
  have other: "comment_login (comment_by 1 ''alice'' '':-1:'') \<noteq> Some githubUser"
    by (simp add: comment_login_def comment_by_def githubUser_def)
  have val: "aggregate plain_text [comment_by 1 ''alice'' '':-1:''] = Some ([(''alice'', False)], [])"
    by code_simp
  from C5_own_comments_ignored [of plain_text
      "[comment_by 1 ''alice'' '':-1:'', comment_by 2 ''robotally'' '':+1: :tada:'']"]
    own other val
  show ?thesis by simp
qed

text \<open>
  C7. For every comment that is not the engine's own and whose body contains both
  \<^verbatim>\<open>:+1:\<close> and \<^verbatim>\<open>:-1:\<close>, the aggregation records the vote true for its author: in the round
  of the loop on that comment, and in the result of every history that ends with it. The text
  scanned is the rendering of the comment by the client library; it is taken to contain the
  body.
\<close>

theorem C7_both_tokens_approve:
  assumes "comment_login comment = Some user" and "user \<noteq> githubUser"
    and "Body comment = Some body"
    and "Contains body '':+1:''" and "Contains body '':-1:''"
    and "Contains (str comment) body"
  shows "(\<exists>votes' reactions'.
            aggregate_comment str comment (votes, reactions) = Some (votes', reactions')
          \<and> map_of votes' user = Some True)
     \<and> (\<forall>before. aggregate str before \<noteq> None \<longrightarrow>
           (\<exists>votes' reactions'.
              aggregate str (before @ [comment]) = Some (votes', reactions')
            \<and> map_of votes' user = Some True))"
proof -
  from assms(4,6) have up: "Contains (str comment) '':+1:''" by (rule Contains_trans [rotated])
  have step: "\<And>v r. \<exists>v' r'. aggregate_comment str comment (v, r) = Some (v', r')
      \<and> map_of v' user = Some True"
    using assms(1,2) up by (simp add: aggregate_comment_def update_conv')
  have "\<exists>v' r'. aggregate str (before @ [comment]) = Some (v', r') \<and> map_of v' user = Some True"
    if "aggregate str before \<noteq> None" for before
  proof -
    from that obtain v r where "aggregate_loop str before ([], []) = Some (v, r)"
      by (auto simp: aggregate_def)
    with step [of v r] show ?thesis
      by (auto simp: aggregate_def aggregate_loop_append)
  qed
  with step show ?thesis by blast
qed

text \<open>
  An instance: \<^verbatim>\<open>alice\<close> rejects, then writes a comment with the rejection before the
  approval.
\<close>

theorem C7_both_tokens_approve_witness:
  "comment_login (comment_by 3 ''alice'' ''no :-1: yes :+1:'') = Some ''alice''
   \<and> ''alice'' \<noteq> githubUser
   \<and> Contains ''no :-1: yes :+1:'' '':+1:'' \<and> Contains ''no :-1: yes :+1:'' '':-1:''
   \<and> (\<exists>votes' reactions'.
         aggregate plain_text
           ([comment_by 1 ''alice'' '':-1:''] @ [comment_by 3 ''alice'' ''no :-1: yes :+1:''])
           = Some (votes', reactions')
       \<and> map_of votes' ''alice'' = Some True)"
proof -
  have l: "comment_login (comment_by 3 ''alice'' ''no :-1: yes :+1:'') = Some ''alice''"
    by (simp add: comment_login_def comment_by_def)
  have n: "''alice'' \<noteq> githubUser" by (simp add: githubUser_def)
  have b: "Body (comment_by 3 ''alice'' ''no :-1: yes :+1:'') = Some ''no :-1: yes :+1:''"
    by (simp add: comment_by_def)
  have u: "Contains ''no :-1: yes :+1:'' '':+1:''" by code_simp
  have d: "Contains ''no :-1: yes :+1:'' '':-1:''" by code_simp
  have t: "Contains (plain_text (comment_by 3 ''alice'' ''no :-1: yes :+1:'')) ''no :-1: yes :+1:''"
    by code_simp
  have p: "aggregate plain_text [comment_by 1 ''alice'' '':-1:''] \<noteq> None" by code_simp
  note r = C7_both_tokens_approve [where str = plain_text
      and comment = "comment_by 3 ''alice'' ''no :-1: yes :+1:''" and user = "''alice''"
      and body = "''no :-1: yes :+1:''" and votes = "[]" and reactions = "[]", OF l n b u d t]
  from r [THEN conjunct2, rule_format, OF p] l n u d
  show ?thesis by (intro conjI)
qed

subsection \<open>Aggregation: the reaction codes\<close>

lemma FindAllString_codes: "e \<in> set (emojis_FindAllString s) \<Longrightarrow> emoji_code e"
proof (induction s rule: emojis_FindAllString.induct)
  case 1
  then show ?case by (simp add: emojis_FindAllString.simps)
next
  case (2 c s)
  let ?match = "c = CHR '':'' \<and> takeWhile emoji_char s \<noteq> []
         \<and> (case dropWhile emoji_char s of [] \<Rightarrow> False | d # _ \<Rightarrow> d = CHR '':'')"
  show ?case
  proof (cases ?match)
    case True
    have "emojis_FindAllString (c # s) =
        (c # takeWhile emoji_char s @ '':'') # emojis_FindAllString (tl (dropWhile emoji_char s))"
      by (subst emojis_FindAllString.simps(2)) (rule if_P [OF True])
    with "2.prems" have "e = c # takeWhile emoji_char s @ '':''
        \<or> e \<in> set (emojis_FindAllString (tl (dropWhile emoji_char s)))"
      by simp
    moreover have "emoji_code (c # takeWhile emoji_char s @ '':'')"
      using True by (simp add: emoji_code_def list_all_iff) (meson set_takeWhileD)
    ultimately show ?thesis using "2.IH"(1) True by blast
  next
    case False
    have "emojis_FindAllString (c # s) = emojis_FindAllString s"
      by (subst emojis_FindAllString.simps(2)) (rule if_not_P [OF False])
    with "2.prems" "2.IH"(2) False show ?thesis by simp
  qed
qed

lemma disabled_iff: "disabled e \<longleftrightarrow> e = '':+1'' \<or> e = '':-1''"
  by (simp add: disabled_def disabled_map_def)

lemma emoji_code_enabled: "emoji_code e \<Longrightarrow> \<not> disabled e"
  by (auto simp: disabled_iff emoji_code_def)

lemma vote_tokens_no_codes: "\<not> emoji_code '':+1:''" "\<not> emoji_code '':-1:''"
  by (simp_all add: emoji_code_def emoji_char_def)

lemma keys_react:
  "fst ` set (react login e r) = (if disabled e then fst ` set r else insert e (fst ` set r))"
  by (auto simp: react_def dom_update split: option.splits)

lemma keys_fold_react:
  "fst ` set (fold (react login) es r) = fst ` set r \<union> {e \<in> set es. \<not> disabled e}"
  by (induction es arbitrary: r) (auto simp: keys_react)

lemma keys_aggregate_comment:
  assumes "aggregate_comment str c (v, r) = Some (v', r')"
  shows "fst ` set r' \<subseteq> fst ` set r \<union> {e \<in> set (emojis_FindAllString (str c)). \<not> disabled e}"
proof -
  from assms have "r' = r \<or> (\<exists>login. r' = fold (react login) (emojis_FindAllString (str c)) r)"
    by (auto simp: aggregate_comment_def split: option.splits if_splits)
  then show ?thesis
    by (elim disjE exE) (simp_all add: keys_fold_react)
qed

lemma keys_aggregate_loop:
  "aggregate_loop str cs (v, r) = Some (v', r') \<Longrightarrow> k \<in> fst ` set r' \<Longrightarrow>
   k \<in> fst ` set r \<or> (emoji_code k \<and> \<not> disabled k)"
proof (induction cs arbitrary: v r)
  case Nil
  then show ?case by simp
next
  case (Cons c cs)
  from Cons.prems(1) obtain v1 r1 where
    step: "aggregate_comment str c (v, r) = Some (v1, r1)"
    and rest: "aggregate_loop str cs (v1, r1) = Some (v', r')"
    by (auto split: option.splits)
  from Cons.IH [OF rest Cons.prems(2)] keys_aggregate_comment [OF step]
  show ?case using FindAllString_codes by blast
qed

lemma keys_aggregate:
  assumes "aggregate str comments = Some (votes, reactions)" and "k \<in> fst ` set reactions"
  shows "emoji_code k \<and> \<not> disabled k"
  using keys_aggregate_loop [of str comments "[]" "[]" votes reactions k] assms
  by (simp add: aggregate_def)



text \<open>
  C9. For every comment history that the aggregation gets through, every code of the
  aggregated reaction mapping is a string of the pattern, so \<^verbatim>\<open>:+1:\<close> and \<^verbatim>\<open>:-1:\<close>, which
  are none, are no codes of it. The test against \<^verbatim>\<open>disabled\<close> plays no part: every match of
  the pattern passes it, since no key of \<^verbatim>\<open>disabled\<close> is a string of the pattern.
\<close>

theorem C9_vote_tokens_never_codes:
  assumes "aggregate str comments = Some (votes, reactions)"
  shows "(\<forall>k \<in> fst ` set reactions. emoji_code k)
     \<and> '':+1:'' \<notin> fst ` set reactions \<and> '':-1:'' \<notin> fst ` set reactions
     \<and> (\<forall>text. \<forall>e \<in> set (emojis_FindAllString text). emoji_code e \<and> \<not> disabled e)
     \<and> (\<forall>k. disabled k \<longrightarrow> \<not> emoji_code k)
     \<and> \<not> emoji_code '':+1:'' \<and> \<not> emoji_code '':-1:''"
proof -
  have keys: "\<forall>k \<in> fst ` set reactions. emoji_code k"
    using keys_aggregate [OF assms] by blast
  have up: "'':+1:'' \<notin> fst ` set reactions"
  proof
    assume "'':+1:'' \<in> fst ` set reactions"
    from keys_aggregate [OF assms this] vote_tokens_no_codes(1) show False by simp
  qed
  have down: "'':-1:'' \<notin> fst ` set reactions"
  proof
    assume "'':-1:'' \<in> fst ` set reactions"
    from keys_aggregate [OF assms this] vote_tokens_no_codes(2) show False by simp
  qed
  have finds: "\<forall>text. \<forall>e \<in> set (emojis_FindAllString text). emoji_code e \<and> \<not> disabled e"
    by (simp add: FindAllString_codes emoji_code_enabled)
  have dis: "\<forall>k. disabled k \<longrightarrow> \<not> emoji_code k"
    using emoji_code_enabled by blast
  from keys up down finds dis vote_tokens_no_codes(1) vote_tokens_no_codes(2)
  show ?thesis by (intro conjI)
qed

text \<open>
  An instance: a comment with both vote tokens and one reaction.
\<close>

theorem C9_vote_tokens_never_codes_witness:
  "aggregate plain_text [comment_by 1 ''alice'' '':+1: :-1: :tada:'']
     = Some ([(''alice'', True)], [('':tada:'', [(''alice'', ())])])
   \<and> emojis_FindAllString '':+1: :-1: :tada:'' = ['':tada:'']
   \<and> '':+1:'' \<notin> fst ` set [('':tada:'', [(''alice'', ())])]
   \<and> '':-1:'' \<notin> fst ` set [('':tada:'', [(''alice'', ())])]"
proof -
  have a: "aggregate plain_text [comment_by 1 ''alice'' '':+1: :-1: :tada:'']
     = Some ([(''alice'', True)], [('':tada:'', [(''alice'', ())])])"
    by code_simp
  have f: "emojis_FindAllString '':+1: :-1: :tada:'' = ['':tada:'']" by code_simp
  note r = C9_vote_tokens_never_codes [OF a]
  note r1 = r [THEN conjunct2, THEN conjunct1]
  note r2 = r [THEN conjunct2, THEN conjunct2, THEN conjunct1]
  from a f r1 r2 show ?thesis by (intro conjI)
qed

subsection \<open>The handler\<close>

lemma handler_created:
  "Sender e = Some s \<Longrightarrow> Login s \<noteq> githubUser \<Longrightarrow> Action e = ''created'' \<Longrightarrow>
   handler str now visit cl (Decoded e) = created str now visit cl e"
  by (simp add: handler_def)

lemma handler_opened:
  "Sender e = Some s \<Longrightarrow> Login s \<noteq> githubUser \<Longrightarrow> Action e = ''opened'' \<Longrightarrow>
   handler str now visit cl (Decoded e) = opened now cl e"
  by (simp add: handler_def)

lemma handler_created_calls:
  "Action e = ''created'' \<Longrightarrow>
   snd (handler str now visit cl (Decoded e)) = [] \<or>
   snd (handler str now visit cl (Decoded e)) = snd (created str now visit cl e)"
  by (simp add: handler_def split: option.splits)

lemma carried_warning_total:
  "(\<forall>c \<in> set cs. comment_login c \<noteq> None) \<Longrightarrow> carried_warning str cs w \<noteq> None"
  by (induction cs arbitrary: w) (auto split: option.splits)

lemma edit_first_shape:
  "snd (edit_first cl ow n rep cs) = []
   \<or> (\<exists>c cid. find (\<lambda>c. comment_login c = Some githubUser) cs = Some c \<and> ID c = Some cid
        \<and> snd (edit_first cl ow n rep cs) = [EditComment_call ow n cid rep])"
  by (induction cs) (auto split: option.splits)

lemma edit_first_calls:
  "snd (edit_first cl ow n rep cs) = []
   \<or> (\<exists>cid. snd (edit_first cl ow n rep cs) = [EditComment_call ow n cid rep])"
  using edit_first_shape [of cl ow n rep cs] by blast

lemma edit_first_none:
  "\<forall>c \<in> set cs. comment_login c \<noteq> Some githubUser \<Longrightarrow> snd (edit_first cl ow n rep cs) = []"
  by (induction cs) (auto split: option.splits)

lemma edit_first_does:
  "\<forall>c \<in> set cs. comment_login c \<noteq> None \<Longrightarrow>
   find (\<lambda>c. comment_login c = Some githubUser) cs = Some c \<Longrightarrow> ID c = Some cid \<Longrightarrow>
   snd (edit_first cl ow n rep cs) = [EditComment_call ow n cid rep]"
  by (induction cs) (auto split: option.splits if_splits)

lemma created_calls:
  assumes "Repository e = Some r" "Owner r = Some ow" "Issue e = Some i"
    and "ListComments cl (Login ow) (Name r) (Number i) = Inr comments"
  shows "snd (created str now visit cl e) = [ListComments_call (Login ow) (Name r) (Number i)]
     \<or> (\<exists>v rs w. aggregate str comments = Some (v, rs) \<and> carried_warning str comments [] = Some w
          \<and> snd (created str now visit cl e) =
              ListComments_call (Login ow) (Name r) (Number i)
                # snd (edit_first cl (Login ow) (Name r) (status now visit w v rs) comments))"
  using assms by (auto simp: created_def split: option.splits prod.splits)

lemma created_calls_any:
  "snd (created str now visit cl e) = []
   \<or> (\<exists>ow n k. snd (created str now visit cl e) = [ListComments_call ow n k])
   \<or> (\<exists>ow n k rep cs. snd (created str now visit cl e)
         = ListComments_call ow n k # snd (edit_first cl ow n rep cs))"
  by (auto simp: created_def split_beta split: option.splits sum.splits)

lemma created_no_create: "\<not> list_ex is_create (snd (created str now visit cl e))"
proof -
  have "\<not> list_ex is_create (snd (edit_first cl ow n rep cs))" for ow n rep cs
    using edit_first_calls [of cl ow n rep cs] by (auto simp: is_create_def)
  with created_calls_any [of str now visit cl e] show ?thesis
    by (elim disjE exE) (simp_all add: is_create_def)
qed

lemma created_one_edit: "length (filter is_edit (snd (created str now visit cl e))) \<le> 1"
proof -
  have "length (filter is_edit (snd (edit_first cl ow n rep cs))) \<le> 1" for ow n rep cs
    using edit_first_calls [of cl ow n rep cs] by (auto simp: is_edit_def)
  with created_calls_any [of str now visit cl e] show ?thesis
    by (elim disjE exE) (simp_all add: is_edit_def)
qed

lemma created_calls_eq:
  assumes "Repository e = Some r" "Owner r = Some ow" "Issue e = Some i"
    and "ListComments cl (Login ow) (Name r) (Number i) = Inr comments"
    and "aggregate str comments = Some (v, rs)" and "carried_warning str comments [] = Some w"
  shows "snd (created str now visit cl e) =
     ListComments_call (Login ow) (Name r) (Number i)
       # snd (edit_first cl (Login ow) (Name r) (status now visit w v rs) comments)"
  using assms by (simp add: created_def split_beta)

lemma created_refresh:
  assumes "Repository e = Some r" "Owner r = Some ow" "Issue e = Some i"
    and "ListComments cl (Login ow) (Name r) (Number i) = Inr comments"
  shows "snd (created str now visit cl e) = [ListComments_call (Login ow) (Name r) (Number i)]
      \<or> (\<exists>c cid report.
            find (\<lambda>c. comment_login c = Some githubUser) comments = Some c \<and> ID c = Some cid
          \<and> snd (created str now visit cl e) =
              [ListComments_call (Login ow) (Name r) (Number i),
               EditComment_call (Login ow) (Name r) cid report])"
    and "(\<forall>c \<in> set comments. comment_login c \<noteq> Some githubUser) \<longrightarrow>
         snd (created str now visit cl e) = [ListComments_call (Login ow) (Name r) (Number i)]"
    and "(\<forall>c \<in> set comments. comment_login c \<noteq> None) \<longrightarrow>
         (\<forall>c cid. find (\<lambda>c. comment_login c = Some githubUser) comments = Some c
                    \<and> ID c = Some cid \<longrightarrow>
            (\<exists>v rs w. aggregate str comments = Some (v, rs)
               \<and> carried_warning str comments [] = Some w
               \<and> snd (created str now visit cl e) =
                   [ListComments_call (Login ow) (Name r) (Number i),
                    EditComment_call (Login ow) (Name r) cid (status now visit w v rs)]))"
proof -
  let ?L = "ListComments_call (Login ow) (Name r) (Number i)"
  from created_calls [OF assms, of str now visit]
  consider (stop) "snd (created str now visit cl e) = [?L]"
    | (go) v rs w where "aggregate str comments = Some (v, rs)"
        "carried_warning str comments [] = Some w"
        "snd (created str now visit cl e) =
           ?L # snd (edit_first cl (Login ow) (Name r) (status now visit w v rs) comments)"
    by blast
  then show "snd (created str now visit cl e) = [?L]
      \<or> (\<exists>c cid report.
            find (\<lambda>c. comment_login c = Some githubUser) comments = Some c \<and> ID c = Some cid
          \<and> snd (created str now visit cl e) = [?L, EditComment_call (Login ow) (Name r) cid report])"
  proof cases
    case stop
    then show ?thesis by simp
  next
    case go
    from edit_first_shape [of cl "Login ow" "Name r" "status now visit w v rs" comments] go(3)
    show ?thesis by auto
  qed
  show "(\<forall>c \<in> set comments. comment_login c \<noteq> Some githubUser) \<longrightarrow>
         snd (created str now visit cl e) = [?L]"
  proof
    assume none: "\<forall>c \<in> set comments. comment_login c \<noteq> Some githubUser"
    from created_calls [OF assms, of str now visit] show "snd (created str now visit cl e) = [?L]"
      by (auto simp: edit_first_none [OF none])
  qed
  show "(\<forall>c \<in> set comments. comment_login c \<noteq> None) \<longrightarrow>
         (\<forall>c cid. find (\<lambda>c. comment_login c = Some githubUser) comments = Some c
                    \<and> ID c = Some cid \<longrightarrow>
            (\<exists>v rs w. aggregate str comments = Some (v, rs)
               \<and> carried_warning str comments [] = Some w
               \<and> snd (created str now visit cl e) =
                   [?L, EditComment_call (Login ow) (Name r) cid (status now visit w v rs)]))"
  proof (intro impI allI, elim conjE)
    fix c cid
    assume all: "\<forall>c \<in> set comments. comment_login c \<noteq> None"
      and f: "find (\<lambda>c. comment_login c = Some githubUser) comments = Some c"
      and i: "ID c = Some cid"
    from all have "aggregate str comments \<noteq> None"
      by (simp add: aggregate_def aggregate_loop_None)
    then obtain v rs where a: "aggregate str comments = Some (v, rs)" by auto
    from carried_warning_total [OF all, of str "[]"]
    obtain w where w: "carried_warning str comments [] = Some w" by auto
    from created_calls_eq [OF assms a w, of now visit]
      edit_first_does [OF all f i, of cl "Login ow" "Name r" "status now visit w v rs"]
    have "snd (created str now visit cl e) =
        [?L, EditComment_call (Login ow) (Name r) cid (status now visit w v rs)]"
      by simp
    with a w show "\<exists>v rs w. aggregate str comments = Some (v, rs)
               \<and> carried_warning str comments [] = Some w
               \<and> snd (created str now visit cl e) =
                   [?L, EditComment_call (Login ow) (Name r) cid (status now visit w v rs)]"
      by blast
  qed
qed

text \<open>
  C3. On an event with the action \<^verbatim>\<open>created\<close>, whatever the comments of the thread, the
  calls of the handler hold no create and at most one edit. When the event is handled (the
  sender is not the engine, repository, owner and issue are present, the listing succeeds),
  the calls are the listing alone, or the listing and one edit of the first comment of the
  list whose author is the engine. They are the listing alone when no comment of the list is
  the engine's. When every comment has an author and the first comment of the engine has an
  identifier, the edit is made, and its body is the report rendered from the aggregation of
  the list and the warning carried over.
\<close>

theorem C3_refresh_edits_first_own_comment:
  assumes "Action e = ''created''" and "calls = snd (handler str now visit cl (Decoded e))"
  shows "\<not> list_ex is_create calls \<and> length (filter is_edit calls) \<le> 1
     \<and> (\<forall>s r ow i comments.
          Sender e = Some s \<and> Login s \<noteq> githubUser \<and> Repository e = Some r
          \<and> Owner r = Some ow \<and> Issue e = Some i
          \<and> ListComments cl (Login ow) (Name r) (Number i) = Inr comments \<longrightarrow>
            (calls = [ListComments_call (Login ow) (Name r) (Number i)]
             \<or> (\<exists>c cid report.
                   find (\<lambda>c. comment_login c = Some githubUser) comments = Some c
                 \<and> ID c = Some cid
                 \<and> calls = [ListComments_call (Login ow) (Name r) (Number i),
                             EditComment_call (Login ow) (Name r) cid report]))
          \<and> ((\<forall>c \<in> set comments. comment_login c \<noteq> Some githubUser) \<longrightarrow>
                calls = [ListComments_call (Login ow) (Name r) (Number i)])
          \<and> ((\<forall>c \<in> set comments. comment_login c \<noteq> None) \<longrightarrow>
               (\<forall>c cid. find (\<lambda>c. comment_login c = Some githubUser) comments = Some c
                          \<and> ID c = Some cid \<longrightarrow>
                  (\<exists>v rs w. aggregate str comments = Some (v, rs)
                     \<and> carried_warning str comments [] = Some w
                     \<and> calls = [ListComments_call (Login ow) (Name r) (Number i),
                                 EditComment_call (Login ow) (Name r) cid
                                   (status now visit w v rs)]))))"
proof (intro conjI allI impI, goal_cases)
  case 1
  from handler_created_calls [OF assms(1), of str now visit cl] created_no_create [of str now visit cl e]
  show ?case by (auto simp: assms(2))
next
  case 2
  from handler_created_calls [OF assms(1), of str now visit cl] created_one_edit [of str now visit cl e]
  show ?case by (auto simp: assms(2))
next
  case (3 s r ow i comments)
  then have h: "calls = snd (created str now visit cl e)"
    and p: "Repository e = Some r" "Owner r = Some ow" "Issue e = Some i"
      "ListComments cl (Login ow) (Name r) (Number i) = Inr comments"
    using assms by (simp_all add: handler_created)
  from created_refresh(1) [OF p, of str now visit] show ?case by (simp only: h)
next
  case (4 s r ow i comments)
  then have h: "calls = snd (created str now visit cl e)"
    and p: "Repository e = Some r" "Owner r = Some ow" "Issue e = Some i"
      "ListComments cl (Login ow) (Name r) (Number i) = Inr comments"
    using assms by (simp_all add: handler_created)
  from created_refresh(2) [OF p, of str now visit] 4(2) show ?case by (simp only: h)
next
  case (5 s r ow i comments c cid)
  then have h: "calls = snd (created str now visit cl e)"
    and p: "Repository e = Some r" "Owner r = Some ow" "Issue e = Some i"
      "ListComments cl (Login ow) (Name r) (Number i) = Inr comments"
    using assms by (simp_all add: handler_created)
  from created_refresh(3) [OF p, of str now visit] 5(2,3) show ?case unfolding h by blast
qed

text \<open>
  An instance: a thread with an approval and two comments of the engine; the first of the two
  is edited.
\<close>

theorem C3_refresh_edits_first_own_comment_witness:
  "Action (notification ''created'' ''alice'' (Some \<lparr>Number = 7\<rparr>)) = ''created''
   \<and> snd (handler plain_text ''Sat Oct 31 12:00:00 UTC 2026'' []
            (store_with [comment_by 1 ''alice'' '':+1:'', comment_by 2 ''robotally'' ''first'',
                         comment_by 3 ''robotally'' ''second''])
            (Decoded (notification ''created'' ''alice'' (Some \<lparr>Number = 7\<rparr>))))
     = [ListComments_call ''owner'' ''repo'' 7,
        EditComment_call ''owner'' ''repo'' 2
          (status ''Sat Oct 31 12:00:00 UTC 2026'' [] [] [(''alice'', True)] [])]
   \<and> \<not> list_ex is_create
         [ListComments_call ''owner'' ''repo'' 7,
          EditComment_call ''owner'' ''repo'' 2
            (status ''Sat Oct 31 12:00:00 UTC 2026'' [] [] [(''alice'', True)] [])]
   \<and> length (filter is_edit
         [ListComments_call ''owner'' ''repo'' 7,
          EditComment_call ''owner'' ''repo'' 2
            (status ''Sat Oct 31 12:00:00 UTC 2026'' [] [] [(''alice'', True)] [])]) \<le> 1"
proof -
  have a: "Action (notification ''created'' ''alice'' (Some \<lparr>Number = 7\<rparr>)) = ''created''"
    by (simp add: notification_def)
  have c: "[ListComments_call ''owner'' ''repo'' 7,
        EditComment_call ''owner'' ''repo'' 2
          (status ''Sat Oct 31 12:00:00 UTC 2026'' [] [] [(''alice'', True)] [])]
     = snd (handler plain_text ''Sat Oct 31 12:00:00 UTC 2026'' []
            (store_with [comment_by 1 ''alice'' '':+1:'', comment_by 2 ''robotally'' ''first'',
                         comment_by 3 ''robotally'' ''second''])
            (Decoded (notification ''created'' ''alice'' (Some \<lparr>Number = 7\<rparr>))))"
    by code_simp
  note r = C3_refresh_edits_first_own_comment [OF a c]
  note r1 = r [THEN conjunct1]
  note r2 = r [THEN conjunct2, THEN conjunct1]
  from a c [symmetric] r1 r2 show ?thesis by (intro conjI)
qed

lemma handler_own_sender:
  "Sender e = Some s \<Longrightarrow> Login s = githubUser \<Longrightarrow>
   handler str now visit cl (Decoded e) = (Reply StatusOK [], [])"
  by (simp add: handler_def)

lemma handler_no_sender:
  "Sender e = None \<Longrightarrow> handler str now visit cl (Decoded e) = (Panic, [])"
  by (simp add: handler_def)

lemma handler_rejects:
  "Sender e = Some s \<Longrightarrow> Login s \<noteq> githubUser \<Longrightarrow>
   Action e \<noteq> ''opened'' \<Longrightarrow> Action e \<noteq> ''created'' \<Longrightarrow>
   handler str now visit cl (Decoded e)
     = (Reply StatusMethodNotAllowed ''Non-supported action'', [])"
  by (simp add: handler_def)

text \<open>
  C4. The claim: every event whose action is neither \<^verbatim>\<open>opened\<close> nor \<^verbatim>\<open>created\<close> is answered
  with a client error, and no call to the comment store is made. What holds of such an event:
  no call is made; the answer is the client error 405 when the event has a sender and the
  sender is not the engine; when the sender is the engine, the handler returns with nothing
  written, which is the answer 200 with an empty body; when there is no sender, the handler
  panics; the last two are no client errors. The handler compares the sender before the
  action.
\<close>

theorem C4_unsupported_action:
  assumes "Action e \<noteq> ''opened''" and "Action e \<noteq> ''created''"
  shows "snd (handler str now visit cl (Decoded e)) = []
     \<and> (\<forall>s. Sender e = Some s \<and> Login s \<noteq> githubUser \<longrightarrow>
           handler str now visit cl (Decoded e)
             = (Reply StatusMethodNotAllowed ''Non-supported action'', [])
         \<and> client_error (fst (handler str now visit cl (Decoded e))))
     \<and> (\<forall>s. Sender e = Some s \<and> Login s = githubUser \<longrightarrow>
           handler str now visit cl (Decoded e) = (Reply StatusOK [], [])
         \<and> \<not> client_error (fst (handler str now visit cl (Decoded e))))
     \<and> (Sender e = None \<longrightarrow>
           handler str now visit cl (Decoded e) = (Panic, [])
         \<and> \<not> client_error (fst (handler str now visit cl (Decoded e))))"
proof (intro conjI allI impI)
  show "snd (handler str now visit cl (Decoded e)) = []"
    using assms by (simp add: handler_def split: option.splits)
next
  fix s assume "Sender e = Some s \<and> Login s \<noteq> githubUser"
  then have h: "handler str now visit cl (Decoded e)
      = (Reply StatusMethodNotAllowed ''Non-supported action'', [])"
    using assms by (simp add: handler_rejects)
  then show "handler str now visit cl (Decoded e)
      = (Reply StatusMethodNotAllowed ''Non-supported action'', [])" .
  from h show "client_error (fst (handler str now visit cl (Decoded e)))"
    by (simp add: client_error_def StatusMethodNotAllowed_def)
next
  fix s assume "Sender e = Some s \<and> Login s = githubUser"
  then have h: "handler str now visit cl (Decoded e) = (Reply StatusOK [], [])"
    by (simp add: handler_own_sender)
  then show "handler str now visit cl (Decoded e) = (Reply StatusOK [], [])" .
  from h show "\<not> client_error (fst (handler str now visit cl (Decoded e)))"
    by (simp add: client_error_def StatusOK_def)
next
  assume "Sender e = None"
  then have h: "handler str now visit cl (Decoded e) = (Panic, [])"
    by (rule handler_no_sender)
  then show "handler str now visit cl (Decoded e) = (Panic, [])" .
  from h show "\<not> client_error (fst (handler str now visit cl (Decoded e)))"
    by (simp add: client_error_def)
qed

text \<open>
  An instance: \<^verbatim>\<open>alice\<close> closes a thread.
\<close>

theorem C4_unsupported_action_witness:
  "Action (notification ''closed'' ''alice'' None) \<noteq> ''opened''
   \<and> Action (notification ''closed'' ''alice'' None) \<noteq> ''created''
   \<and> handler plain_text ''Sat Oct 31 12:00:00 UTC 2026'' [] (store_with [])
        (Decoded (notification ''closed'' ''alice'' None))
       = (Reply StatusMethodNotAllowed ''Non-supported action'', [])
   \<and> client_error (fst (handler plain_text ''Sat Oct 31 12:00:00 UTC 2026'' [] (store_with [])
        (Decoded (notification ''closed'' ''alice'' None))))"
proof -
  have a: "Action (notification ''closed'' ''alice'' None) \<noteq> ''opened''"
    by (simp add: notification_def)
  have b: "Action (notification ''closed'' ''alice'' None) \<noteq> ''created''"
    by (simp add: notification_def)
  have s: "Sender (notification ''closed'' ''alice'' None) = Some \<lparr>Login = ''alice''\<rparr>
      \<and> Login \<lparr>Login = ''alice''\<rparr> \<noteq> githubUser"
    by (simp add: notification_def githubUser_def)
  note r = C4_unsupported_action [OF a b, of plain_text
      "''Sat Oct 31 12:00:00 UTC 2026''" "[]" "store_with []",
      THEN conjunct2, THEN conjunct1, THEN spec, THEN mp, OF s]
  from a b r [THEN conjunct1] r [THEN conjunct2] show ?thesis by (intro conjI)
qed

text \<open>
  The event that GitHub sends when the engine has edited its report has the action
  \<^verbatim>\<open>edited\<close> and the engine as its sender: the handler returns with nothing written, which is
  the answer 200. An event with no sender makes the handler panic.
\<close>

theorem C4_counterexample:
  "Action (notification ''edited'' ''robotally'' (Some \<lparr>Number = 7\<rparr>)) \<noteq> ''opened''
   \<and> Action (notification ''edited'' ''robotally'' (Some \<lparr>Number = 7\<rparr>)) \<noteq> ''created''
   \<and> handler plain_text ''Sat Oct 31 12:00:00 UTC 2026'' [] (store_with [])
        (Decoded (notification ''edited'' ''robotally'' (Some \<lparr>Number = 7\<rparr>)))
       = (Reply StatusOK [], [])
   \<and> \<not> client_error (Reply StatusOK [])
   \<and> handler plain_text ''Sat Oct 31 12:00:00 UTC 2026'' [] (store_with [])
        (Decoded \<lparr>Action = ''edited'', Issue = None, PullRequest = None, Repository = None,
                  Sender = None\<rparr>)
       = (Panic, [])
   \<and> \<not> client_error Panic"
  by (simp add: handler_def notification_def githubUser_def client_error_def StatusOK_def)

text \<open>
  C10. The claim: on every event with the action \<^verbatim>\<open>opened\<close> that has neither an issue nor a
  pull request, the handler attempts to create a report comment on the thread 0. What holds of
  such an event: when it has a sender other than the engine and a repository with an owner,
  the one call is the create on the thread 0 with the empty report, and the answer follows
  the outcome of that call; when it has a sender other than the engine and no repository, or
  a repository with no owner, the handler panics with no call made; when its sender is the
  engine, the handler returns with no call, which is the answer 200; when it has no sender,
  the handler panics with no call made.
\<close>

theorem C10_opened_without_thread:
  assumes "Action e = ''opened''" and "Issue e = None" and "PullRequest e = None"
  shows "(\<forall>s r ow. Sender e = Some s \<and> Login s \<noteq> githubUser
             \<and> Repository e = Some r \<and> Owner r = Some ow \<longrightarrow>
            snd (handler str now visit cl (Decoded e))
              = [CreateComment_call (Login ow) (Name r) 0 (status now [] [] [] [])]
          \<and> fst (handler str now visit cl (Decoded e))
              = (case CreateComment cl (Login ow) (Name r) 0 (status now [] [] [] []) of
                   None \<Rightarrow> Reply StatusOK []
                 | Some err \<Rightarrow>
                     Reply StatusInternalServerError
                       (''Failed to comment on issue: '' @ err)))
     \<and> (\<forall>s. Sender e = Some s \<and> Login s \<noteq> githubUser
             \<and> (Repository e = None \<or> (\<exists>r. Repository e = Some r \<and> Owner r = None)) \<longrightarrow>
            handler str now visit cl (Decoded e) = (Panic, []))
     \<and> (\<forall>s. Sender e = Some s \<and> Login s = githubUser \<longrightarrow>
            handler str now visit cl (Decoded e) = (Reply StatusOK [], []))
     \<and> (Sender e = None \<longrightarrow> handler str now visit cl (Decoded e) = (Panic, []))"
proof (intro conjI allI impI)
  fix s r ow
  assume h: "Sender e = Some s \<and> Login s \<noteq> githubUser
      \<and> Repository e = Some r \<and> Owner r = Some ow"
  then have o: "handler str now visit cl (Decoded e) = opened now cl e"
    using assms(1) by (simp add: handler_opened)
  from h assms show "snd (handler str now visit cl (Decoded e))
      = [CreateComment_call (Login ow) (Name r) 0 (status now [] [] [] [])]"
    by (simp add: o opened_def branch_warning_def thread_number_def split: option.splits)
  from h assms show "fst (handler str now visit cl (Decoded e))
      = (case CreateComment cl (Login ow) (Name r) 0 (status now [] [] [] []) of
           None \<Rightarrow> Reply StatusOK []
         | Some err \<Rightarrow>
             Reply StatusInternalServerError (''Failed to comment on issue: '' @ err))"
    by (simp add: o opened_def branch_warning_def thread_number_def split: option.splits)
next
  fix s
  assume h: "Sender e = Some s \<and> Login s \<noteq> githubUser
      \<and> (Repository e = None \<or> (\<exists>r. Repository e = Some r \<and> Owner r = None))"
  then have o: "handler str now visit cl (Decoded e) = opened now cl e"
    using assms(1) by (simp add: handler_opened)
  from h assms show "handler str now visit cl (Decoded e) = (Panic, [])"
    by (auto simp: o opened_def branch_warning_def)
next
  fix s assume "Sender e = Some s \<and> Login s = githubUser"
  then show "handler str now visit cl (Decoded e) = (Reply StatusOK [], [])"
    by (simp add: handler_own_sender)
next
  assume "Sender e = None"
  then show "handler str now visit cl (Decoded e) = (Panic, [])"
    by (rule handler_no_sender)
qed

text \<open>
  An instance: \<^verbatim>\<open>alice\<close> sends an event \<^verbatim>\<open>opened\<close> with no issue and no pull request.
\<close>

theorem C10_opened_without_thread_witness:
  "Action (notification ''opened'' ''alice'' None) = ''opened''
   \<and> Issue (notification ''opened'' ''alice'' None) = None
   \<and> PullRequest (notification ''opened'' ''alice'' None) = None
   \<and> snd (handler plain_text ''Sat Oct 31 12:00:00 UTC 2026'' [] (store_with [])
            (Decoded (notification ''opened'' ''alice'' None)))
       = [CreateComment_call ''owner'' ''repo'' 0
            (status ''Sat Oct 31 12:00:00 UTC 2026'' [] [] [] [])]"
proof -
  have a: "Action (notification ''opened'' ''alice'' None) = ''opened''"
    and i: "Issue (notification ''opened'' ''alice'' None) = None"
    and p: "PullRequest (notification ''opened'' ''alice'' None) = None"
    by (simp_all add: notification_def)
  have h: "Sender (notification ''opened'' ''alice'' None) = Some \<lparr>Login = ''alice''\<rparr>
      \<and> Login \<lparr>Login = ''alice''\<rparr> \<noteq> githubUser
      \<and> Repository (notification ''opened'' ''alice'' None)
          = Some \<lparr>Name = ''repo'', Owner = Some \<lparr>Login = ''owner''\<rparr>\<rparr>
      \<and> Owner \<lparr>Name = ''repo'', Owner = Some \<lparr>Login = ''owner''\<rparr>\<rparr>
          = Some \<lparr>Login = ''owner''\<rparr>"
    by (simp add: notification_def githubUser_def)
  note t = C10_opened_without_thread [OF a i p, of plain_text
      "''Sat Oct 31 12:00:00 UTC 2026''" "[]" "store_with []",
      THEN conjunct1, THEN spec, THEN spec, THEN spec, THEN mp, OF h, THEN conjunct1]
  have "snd (handler plain_text ''Sat Oct 31 12:00:00 UTC 2026'' [] (store_with [])
            (Decoded (notification ''opened'' ''alice'' None)))
       = [CreateComment_call ''owner'' ''repo'' 0
            (status ''Sat Oct 31 12:00:00 UTC 2026'' [] [] [] [])]"
    using t by simp
  with a i p show ?thesis by (intro conjI)
qed

text \<open>
  The payload that holds the action \<^verbatim>\<open>opened\<close> and nothing else has no sender: the
  handler panics at the comparison of the sender, before any call. An event \<^verbatim>\<open>opened\<close> with
  neither issue nor pull request whose sender is the engine is dropped: the handler returns
  with no call. One that \<^verbatim>\<open>alice\<close> sends with no repository makes the handler panic when it
  reads the owner, before the create.
\<close>

theorem C10_counterexample:
  "Action \<lparr>Action = ''opened'', Issue = None, PullRequest = None, Repository = None,
            Sender = None\<rparr> = ''opened''
   \<and> handler plain_text ''Sat Oct 31 12:00:00 UTC 2026'' [] (store_with [])
        (Decoded \<lparr>Action = ''opened'', Issue = None, PullRequest = None, Repository = None,
                  Sender = None\<rparr>)
       = (Panic, [])
   \<and> Issue (notification ''opened'' ''robotally'' None) = None
   \<and> PullRequest (notification ''opened'' ''robotally'' None) = None
   \<and> handler plain_text ''Sat Oct 31 12:00:00 UTC 2026'' [] (store_with [])
        (Decoded (notification ''opened'' ''robotally'' None))
       = (Reply StatusOK [], [])
   \<and> handler plain_text ''Sat Oct 31 12:00:00 UTC 2026'' [] (store_with [])
        (Decoded \<lparr>Action = ''opened'', Issue = None, PullRequest = None, Repository = None,
                  Sender = Some \<lparr>Login = ''alice''\<rparr>\<rparr>)
       = (Panic, [])"
  by (simp add: handler_def opened_def branch_warning_def notification_def githubUser_def)

end
